theory Spec2Isabelle
  imports Main "HOL-Library.List_Lexorder"
begin

section \<open>thankunext: the route-discovery pipeline of \<^verbatim>\<open>thankunext.py\<close>\<close>

subsection \<open>Python strings\<close>

text \<open>
  A Python \<^verbatim>\<open>str\<close> is a sequence of Unicode code points. A code point is a natural
  number here, so a text is a list of them; \<open>str\<close> embeds an ASCII literal of the source.
\<close>

type_synonym pystr = "nat list"

definition str :: "string \<Rightarrow> pystr" where
  "str s = map of_char s"

definition startswith :: "pystr \<Rightarrow> pystr \<Rightarrow> bool" where
  "startswith s p = (take (length p) s = p)"

text \<open>\<^verbatim>\<open>s[a:b]\<close> for \<open>0 \<le> a \<le> b \<le> len(s)\<close>, the only slices the matcher takes.\<close>

definition slice :: "pystr \<Rightarrow> nat \<Rightarrow> nat \<Rightarrow> pystr" where
  "slice s a b = take (b - a) (drop a s)"

text \<open>\<^verbatim>\<open>sep.join(xs)\<close>\<close>

fun join :: "pystr \<Rightarrow> pystr list \<Rightarrow> pystr" where
  "join sep [] = []"
| "join sep [x] = x"
| "join sep (x # y # ys) = x @ sep @ join sep (y # ys)"

subsection \<open>The two regular expressions\<close>

text \<open>
  The source hands two patterns to Python's \<^verbatim>\<open>re\<close> module. Both are sequences of
  literal characters, one greedy \<^verbatim>\<open>[...]+\<close> over a character class and, in the second,
  one capturing group. \<open>re_match\<close> is the backtracking matcher on that fragment: it
  matches the items against a prefix of \<open>s\<close>, \<open>pos\<close> counting the characters consumed
  since the start of the attempt, and returns the end position and the marks of group 1.
  A greedy \<^verbatim>\<open>+\<close> takes the longest run of class characters and gives them back one
  at a time, down to one, until the rest of the pattern matches.
\<close>

datatype re_item = Lit nat | Plus "nat \<Rightarrow> bool" | GroupOpen | GroupClose

fun backtrack :: "(nat \<Rightarrow> 'a option) \<Rightarrow> nat \<Rightarrow> 'a option" where
  "backtrack attempt 0 = None"
| "backtrack attempt (Suc k) =
     (case attempt (Suc k) of Some r \<Rightarrow> Some r | None \<Rightarrow> backtrack attempt k)"

fun re_match :: "re_item list \<Rightarrow> pystr \<Rightarrow> nat \<Rightarrow> nat \<times> nat \<Rightarrow> (nat \<times> nat \<times> nat) option" where
  "re_match [] s pos g = Some (pos, g)"
| "re_match (Lit c # r) [] pos g = None"
| "re_match (Lit c # r) (x # xs) pos g = (if x = c then re_match r xs (Suc pos) g else None)"
| "re_match (Plus p # r) s pos g =
     backtrack (\<lambda>k. re_match r (drop k s) (pos + k) g) (length (takeWhile p s))"
| "re_match (GroupOpen # r) s pos (gs, ge) = re_match r s pos (pos, ge)"
| "re_match (GroupClose # r) s pos (gs, ge) = re_match r s pos (gs, pos)"

text \<open>
  \<^verbatim>\<open>re.search\<close>: the match attempt is made at every start position from the left, and the
  first that succeeds gives the match; the result is \<^verbatim>\<open>match.group()\<close>, the matched text.
\<close>

fun re_search :: "re_item list \<Rightarrow> pystr \<Rightarrow> pystr option" where
  "re_search items [] =
     (case re_match items [] 0 (0, 0) of None \<Rightarrow> None | Some (en, gs, ge) \<Rightarrow> Some (take en []))"
| "re_search items (x # xs) =
     (case re_match items (x # xs) 0 (0, 0) of
        None \<Rightarrow> re_search items xs
      | Some (en, gs, ge) \<Rightarrow> Some (take en (x # xs)))"

text \<open>
  \<^verbatim>\<open>re.findall\<close> for a pattern with one group: the text is scanned from the left for
  matches that do not overlap, and the list of the texts of group 1 is returned. \<open>skip\<close> is
  the number of characters still covered by the last match: no attempt starts there.
\<close>

fun findall_scan :: "re_item list \<Rightarrow> nat \<Rightarrow> pystr \<Rightarrow> pystr list" where
  "findall_scan items skip [] =
     (if 0 < skip then []
      else case re_match items [] 0 (0, 0) of
             None \<Rightarrow> []
           | Some (en, gs, ge) \<Rightarrow> [slice [] gs ge])"
| "findall_scan items skip (x # xs) =
     (if 0 < skip then findall_scan items (skip - 1) xs
      else case re_match items (x # xs) 0 (0, 0) of
             None \<Rightarrow> findall_scan items 0 xs
           | Some (en, gs, ge) \<Rightarrow> slice (x # xs) gs ge # findall_scan items (en - 1) xs)"

definition re_findall :: "re_item list \<Rightarrow> pystr \<Rightarrow> pystr list" where
  "re_findall items s = findall_scan items 0 s"

text \<open>
  \<^verbatim>\<open>\w\<close> of a \<^verbatim>\<open>str\<close> pattern: the underscore and every code point that is alphanumeric
  in the Unicode database of the Python runtime. Below 128 these are the ASCII letters and
  digits; the classification of the other code points is the parameter \<open>alnum\<close>.
\<close>

definition in_range :: "char \<Rightarrow> char \<Rightarrow> nat \<Rightarrow> bool" where
  "in_range lo hi c \<longleftrightarrow> of_char lo \<le> c \<and> c \<le> of_char hi"

definition word_char :: "(nat \<Rightarrow> bool) \<Rightarrow> nat \<Rightarrow> bool" where
  "word_char alnum c \<longleftrightarrow>
     (if c < 128
      then in_range CHR ''a'' CHR ''z'' c \<or> in_range CHR ''A'' CHR ''Z'' c
           \<or> in_range CHR ''0'' CHR ''9'' c \<or> c = of_char CHR ''_''
      else alnum c)"

text \<open>\<^verbatim>\<open>[\w-]\<close>\<close>

definition token_class :: "(nat \<Rightarrow> bool) \<Rightarrow> nat \<Rightarrow> bool" where
  "token_class alnum c \<longleftrightarrow> word_char alnum c \<or> c = of_char CHR ''-''"

text \<open>\<^verbatim>\<open>[a-zA-Z0-9_/\[\]\.-]\<close>\<close>

definition path_class :: "nat \<Rightarrow> bool" where
  "path_class c \<longleftrightarrow>
     in_range CHR ''a'' CHR ''z'' c \<or> in_range CHR ''A'' CHR ''Z'' c
     \<or> in_range CHR ''0'' CHR ''9'' c \<or> c = of_char CHR ''_'' \<or> c = of_char CHR ''/''
     \<or> c = of_char CHR ''['' \<or> c = of_char CHR '']'' \<or> c = of_char CHR ''.''
     \<or> c = of_char CHR ''-''"

text \<open>
  \<^verbatim>\<open>r'(?m)/_next/static/[\w-]+/_buildManifest\.js'\<close>. The flag \<^verbatim>\<open>(?m)\<close> changes only
  what \<^verbatim>\<open>^\<close> and \<^verbatim>\<open>$\<close> match, and the pattern has neither.
\<close>

definition manifest_pattern :: "(nat \<Rightarrow> bool) \<Rightarrow> re_item list" where
  "manifest_pattern alnum =
     map Lit (str ''/_next/static/'') @ [Plus (token_class alnum)]
     @ map Lit (str ''/_buildManifest.js'')"

text \<open>\<^verbatim>\<open>r'"(/[a-zA-Z0-9_/\[\]\.-]+)"'\<close>\<close>

definition dquote :: nat where
  "dquote = of_char (CHR 0x22)"

definition slash :: nat where
  "slash = of_char CHR ''/''"

definition route_pattern :: "re_item list" where
  "route_pattern = [Lit dquote, GroupOpen, Lit slash, Plus path_class, GroupClose, Lit dquote]"

subsection \<open>The process: standard output and the network\<close>

text \<open>
  What a run leaves behind: the characters written to standard output and the URLs
  requested, in order. \<^verbatim>\<open>print(s)\<close> writes \<open>s\<close> and a newline.
\<close>

record world =
  stdout :: pystr
  fetched :: "pystr list"

definition init_world :: world where
  "init_world = \<lparr>stdout = [], fetched = []\<rparr>"

definition newline :: nat where
  "newline = 10"

definition print :: "pystr \<Rightarrow> world \<Rightarrow> world" where
  "print s w = w\<lparr>stdout := stdout w @ s @ [newline]\<rparr>"

text \<open>
  \<^verbatim>\<open>requests.get(url, headers=...)\<close> followed by \<^verbatim>\<open>raise_for_status()\<close> is the
  parameter \<open>http\<close>: \<open>Inr text\<close> is the body of a successful response, \<open>Inl e\<close> the text of
  the \<^verbatim>\<open>RequestException\<close> raised. The two requests of a run go to different URLs, so
  a function of the URL describes every behaviour of the network in a run.
\<close>

type_synonym http = "pystr \<Rightarrow> pystr + pystr"

subsection \<open>The methods of \<^verbatim>\<open>ThankUNext\<close>\<close>

definition parse_url :: "pystr \<Rightarrow> world \<Rightarrow> pystr option \<times> world" where
  "parse_url url w =
     (if \<not> startswith url (str ''http://'') \<and> \<not> startswith url (str ''https://'')
      then (None, print (str ''Please include the protocol (http:// or https://) in the URL.'') w)
      else (Some url, w))"

definition get_page_content :: "http \<Rightarrow> pystr \<Rightarrow> world \<Rightarrow> pystr option \<times> world" where
  "get_page_content http url w =
     (let w' = w\<lparr>fetched := fetched w @ [url]\<rparr>
      in case http url of
           Inr text \<Rightarrow> (Some text, w')
         | Inl e \<Rightarrow> (None, print (str ''Error when accessing the URL: '' @ e) w'))"

definition get_build_manifest_path :: "(nat \<Rightarrow> bool) \<Rightarrow> pystr \<Rightarrow> pystr option" where
  "get_build_manifest_path alnum body_content = re_search (manifest_pattern alnum) body_content"

definition get_build_manifest_content :: "http \<Rightarrow> pystr \<Rightarrow> world \<Rightarrow> pystr option \<times> world" where
  "get_build_manifest_content http build_manifest_url w =
     (let w' = w\<lparr>fetched := fetched w @ [build_manifest_url]\<rparr>
      in case http build_manifest_url of
           Inr text \<Rightarrow> (Some text, w')
         | Inl e \<Rightarrow> (None, print (str ''Error accessing buildManifest content: '' @ e) w'))"

definition parse_build_manifest_content :: "pystr \<Rightarrow> pystr set" where
  "parse_build_manifest_content build_manifest_content =
     set (re_findall route_pattern build_manifest_content)"

text \<open>
  \<^verbatim>\<open>if not v: <halt>; return\<close> followed by the rest of the method: \<^verbatim>\<open>None\<close> and
  the empty string are both false, and then the run ends in the world \<open>halt\<close>.
\<close>

definition if_not_return :: "pystr option \<Rightarrow> world \<Rightarrow> (pystr \<Rightarrow> world) \<Rightarrow> world" where
  "if_not_return v halt rest = (case v of None \<Rightarrow> halt | Some s \<Rightarrow> if s = [] then halt else rest s)"

text \<open>
  \<open>start\<close> on the command-line argument \<open>arg_url\<close>, from a process that has written and
  requested nothing. The order in which \<^verbatim>\<open>join\<close> goes through the set of paths is the
  hash order of the runtime: the parameter \<open>iter\<close>.
\<close>

definition start :: "(nat \<Rightarrow> bool) \<Rightarrow> (pystr set \<Rightarrow> pystr list) \<Rightarrow> http \<Rightarrow> pystr \<Rightarrow> world" where
  "start alnum iter http arg_url =
     (case parse_url arg_url init_world of (url, w1) \<Rightarrow>
      if_not_return url w1 (\<lambda>url.
      case get_page_content http url w1 of (page_content, w2) \<Rightarrow>
      if_not_return page_content w2 (\<lambda>page_content.
      if_not_return (get_build_manifest_path alnum page_content)
        (print (str ''_buildManifest.js wasn't found. Is this site really running Next.js?'') w2)
        (\<lambda>build_manifest_path.
      let build_manifest_url = url @ build_manifest_path in
      case get_build_manifest_content http build_manifest_url w2 of (build_manifest_content, w3) \<Rightarrow>
      if_not_return build_manifest_content w3 (\<lambda>build_manifest_content.
      let paths = parse_build_manifest_content build_manifest_content
      in print (join [newline] (iter paths)) w3)))))"

text \<open>An iteration order of sets: every element of a finite set once.\<close>

definition set_iteration :: "(pystr set \<Rightarrow> pystr list) \<Rightarrow> bool" where
  "set_iteration iter \<longleftrightarrow> (\<forall>S. finite S \<longrightarrow> set (iter S) = S \<and> distinct (iter S))"

subsection \<open>What the claims speak of\<close>

text \<open>
  A manifest path: \<^verbatim>\<open>/_next/static/\<close>, one or more word or hyphen characters,
  \<^verbatim>\<open>/_buildManifest.js\<close>.
\<close>

definition manifest_path :: "(nat \<Rightarrow> bool) \<Rightarrow> pystr \<Rightarrow> bool" where
  "manifest_path alnum m \<longleftrightarrow>
     (\<exists>token. m = str ''/_next/static/'' @ token @ str ''/_buildManifest.js''
        \<and> token \<noteq> [] \<and> list_all (token_class alnum) token)"

text \<open>\<open>m\<close> is a piece of \<open>body\<close> with the property \<open>P\<close>, and no such piece starts before it.\<close>

definition leftmost_match :: "(pystr \<Rightarrow> bool) \<Rightarrow> pystr \<Rightarrow> pystr \<Rightarrow> bool" where
  "leftmost_match P body m \<longleftrightarrow>
     P m \<and> (\<exists>pre post. body = pre @ m @ post
       \<and> (\<forall>pre' m' post'. P m' \<and> body = pre' @ m' @ post' \<longrightarrow> length pre \<le> length pre'))"

definition contains_match :: "(pystr \<Rightarrow> bool) \<Rightarrow> pystr \<Rightarrow> bool" where
  "contains_match P body \<longleftrightarrow> (\<exists>pre m post. body = pre @ m @ post \<and> P m)"

text \<open>
  A route literal: a slash and one or more characters of the path class. \<open>quoted_in\<close>: the
  text holds \<open>w\<close> between two double quotes. \<open>closes_route\<close>: the text before a double
  quote ends in a double quote and a route literal, so that the quote closes that literal.
\<close>

definition route_literal :: "pystr \<Rightarrow> bool" where
  "route_literal w \<longleftrightarrow> (\<exists>rest. w = slash # rest \<and> rest \<noteq> [] \<and> list_all path_class rest)"

definition quoted_in :: "pystr \<Rightarrow> pystr \<Rightarrow> bool" where
  "quoted_in text w \<longleftrightarrow> (\<exists>pre post. text = pre @ dquote # w @ dquote # post)"



definition has_route_literal :: "pystr \<Rightarrow> bool" where
  "has_route_literal text \<longleftrightarrow> (\<exists>w. quoted_in text w \<and> route_literal w)"

text \<open>The white space of Python's \<^verbatim>\<open>str.isspace\<close>, by code point.\<close>

definition whitespace :: "nat \<Rightarrow> bool" where
  "whitespace c \<longleftrightarrow>
     (9 \<le> c \<and> c \<le> 13) \<or> (28 \<le> c \<and> c \<le> 32) \<or> c = 133 \<or> c = 160 \<or> c = 5760
     \<or> (8192 \<le> c \<and> c \<le> 8202) \<or> c = 8232 \<or> c = 8233 \<or> c = 8239 \<or> c = 8287 \<or> c = 12288"

subsection \<open>The examples of the specification\<close>

text \<open>
  The address, a page and the manifest of the end-to-end example, a runtime in which no
  code point from 128 on is alphanumeric, and a network that answers the request for
  \<open>url\<close> with \<open>page\<close> and every other request with \<open>manifest\<close>.
\<close>

definition ascii_only :: "nat \<Rightarrow> bool" where
  "ascii_only c = False"

definition example_url :: pystr where
  "example_url = str ''https://example.com''"

definition example_page :: pystr where
  \<open>example_page = str ''<script src="/_next/static/xyz/_buildManifest.js" defer=""></script>''\<close>

definition example_manifest :: pystr where
  \<open>example_manifest = str ''["/a","/b/[id]"]''\<close>

definition mock_http :: "pystr \<Rightarrow> pystr + pystr \<Rightarrow> pystr + pystr \<Rightarrow> http" where
  "mock_http url page manifest u = (if u = url then page else manifest)"

subsection \<open>The matcher on the two patterns\<close>

lemma re_match_lits:
  "re_match (map Lit l @ r) s pos g =
     (if take (length l) s = l then re_match r (drop (length l) s) (pos + length l) g else None)"
proof (induction l arbitrary: s pos)
  case Nil
  show ?case by simp
next
  case (Cons c l)
  show ?case
  proof (cases s)
    case Nil
    then show ?thesis by simp
  next
    case (Cons x xs)
    then show ?thesis using Cons.IH [of xs "Suc pos"] by auto
  qed
qed

lemma backtrack_last:
  "(\<And>k. 0 < k \<Longrightarrow> k < n \<Longrightarrow> attempt k = None) \<Longrightarrow>
   backtrack attempt n = (if n = 0 then None else attempt n)"
proof (induction n)
  case 0
  show ?case by simp
next
  case (Suc n)
  have "backtrack attempt n = None"
  proof (cases n)
    case 0
    then show ?thesis by simp
  next
    case (Suc j)
    then show ?thesis using Suc.IH Suc.prems by (simp add: Suc)
  qed
  then show ?case by (simp split: option.splits)
qed

lemma drop_takeWhile_head:
  assumes "k < length (takeWhile p s)"
  shows "\<exists>x xs. drop k s = x # xs \<and> p x"
proof -
  have len: "k < length s" using assms length_takeWhile_le [of p s] by simp
  have "p (s ! k)" using assms
    by (metis nth_mem set_takeWhileD takeWhile_nth)
  moreover have "drop k s = s ! k # drop (Suc k) s" using len by (simp add: Cons_nth_drop_Suc)
  ultimately show ?thesis by blast
qed

lemma re_match_plus_lit:
  assumes "\<not> p c"
  shows "re_match (Plus p # Lit c # r) s pos g =
     (if takeWhile p s = [] then None
      else re_match (Lit c # r) (dropWhile p s) (pos + length (takeWhile p s)) g)"
proof -
  let ?n = "length (takeWhile p s)"
  let ?att = "\<lambda>k. re_match (Lit c # r) (drop k s) (pos + k) g"
  have "?att k = None" if kn: "k < ?n" for k
  proof -
    obtain x xs where "drop k s = x # xs" "p x" using drop_takeWhile_head [OF kn] by blast
    then show ?thesis using assms by auto
  qed
  then have "backtrack ?att ?n = (if ?n = 0 then None else ?att ?n)"
    by (intro backtrack_last) simp
  then show ?thesis by (simp add: dropWhile_eq_drop)
qed

lemma re_match_plus_close_lit:
  assumes "\<not> p c"
  shows "re_match (Plus p # GroupClose # Lit c # r) s pos (gs, ge) =
     (if takeWhile p s = [] then None
      else re_match (Lit c # r) (dropWhile p s) (pos + length (takeWhile p s))
             (gs, pos + length (takeWhile p s)))"
proof -
  let ?n = "length (takeWhile p s)"
  let ?att = "\<lambda>k. re_match (GroupClose # Lit c # r) (drop k s) (pos + k) (gs, ge)"
  have "?att k = None" if kn: "k < ?n" for k
  proof -
    obtain x xs where "drop k s = x # xs" "p x" using drop_takeWhile_head [OF kn] by blast
    then show ?thesis using assms by auto
  qed
  then have "backtrack ?att ?n = (if ?n = 0 then None else ?att ?n)"
    by (intro backtrack_last) simp
  then show ?thesis by (simp add: dropWhile_eq_drop)
qed

lemma slash_not_token: "\<not> token_class alnum slash"
  by (simp add: token_class_def word_char_def in_range_def slash_def)

lemma manifest_suffix: "str ''/_buildManifest.js'' = slash # str ''_buildManifest.js''"
  by (simp add: str_def slash_def)

lemma re_match_manifest:
  "re_match (manifest_pattern alnum) s pos g =
     (let token = takeWhile (token_class alnum) (drop 14 s);
          rest = dropWhile (token_class alnum) (drop 14 s)
      in if take 14 s = str ''/_next/static/'' \<and> token \<noteq> []
            \<and> take 18 rest = str ''/_buildManifest.js''
         then Some (pos + 14 + length token + 18, g) else None)"
proof -
  have l1: "length (str ''/_next/static/'') = 14" by (simp add: str_def)
  have l2: "length (str ''/_buildManifest.js'') = 18" by (simp add: str_def)
  have step1: "re_match (manifest_pattern alnum) s pos g =
      (if take 14 s = str ''/_next/static/''
       then re_match ([Plus (token_class alnum)] @ map Lit (str ''/_buildManifest.js''))
              (drop 14 s) (pos + 14) g
       else None)"
    by (simp only: manifest_pattern_def re_match_lits l1)
  have step3: "re_match (map Lit (str ''/_buildManifest.js'') @ []) u q g =
      (if take 18 u = str ''/_buildManifest.js'' then Some (q + 18, g) else None)" for u q
    by (simp only: re_match_lits l2 re_match.simps)
  have unf: "[Plus (token_class alnum)] @ map Lit (str ''/_buildManifest.js'')
      = Plus (token_class alnum) # Lit slash # map Lit (str ''_buildManifest.js'') @ []"
    by (simp add: str_def slash_def)
  have fld: "Lit slash # map Lit (str ''_buildManifest.js'') @ []
      = map Lit (str ''/_buildManifest.js'') @ []"
    by (simp add: str_def slash_def)
  have step2: "re_match ([Plus (token_class alnum)] @ map Lit (str ''/_buildManifest.js'')) t p g =
      (if takeWhile (token_class alnum) t = [] then None
       else re_match (map Lit (str ''/_buildManifest.js'') @ []) (dropWhile (token_class alnum) t)
              (p + length (takeWhile (token_class alnum) t)) g)" for t p
    unfolding unf re_match_plus_lit [of "token_class alnum" slash, OF slash_not_token]
    unfolding fld ..
  show ?thesis
    unfolding step1 step2 step3 by (simp add: Let_def)
qed

lemma manifest_match_sound:
  assumes "re_match (manifest_pattern alnum) s 0 g = Some (en, g')"
  shows "manifest_path alnum (take en s) \<and> en \<le> length s"
proof -
  define tok where "tok = takeWhile (token_class alnum) (drop 14 s)"
  define rest where "rest = dropWhile (token_class alnum) (drop 14 s)"
  from assms have a: "take 14 s = str ''/_next/static/''" and b: "tok \<noteq> []"
    and c: "take 18 rest = str ''/_buildManifest.js''" and en: "en = 14 + length tok + 18"
    by (auto simp: re_match_manifest Let_def tok_def rest_def split: if_splits)
  have l1: "length (str ''/_next/static/'') = 14" by (simp add: str_def)
  have l2: "length (str ''/_buildManifest.js'') = 18" by (simp add: str_def)
  have s1: "s = str ''/_next/static/'' @ drop 14 s" using a by (metis append_take_drop_id)
  have s2: "drop 14 s = tok @ rest" by (simp add: tok_def rest_def)
  have s3: "rest = str ''/_buildManifest.js'' @ drop 18 rest" using c by (metis append_take_drop_id)
  have s: "s = str ''/_next/static/'' @ tok @ str ''/_buildManifest.js'' @ drop 18 rest"
    using s1 s2 s3 by metis
  have "take en s = str ''/_next/static/'' @ tok @ str ''/_buildManifest.js''"
    by (subst s) (simp add: en l1 l2)
  moreover have "list_all (token_class alnum) tok"
    unfolding tok_def list_all_iff by (meson set_takeWhileD)
  moreover have "en \<le> length s"
    by (subst s) (simp add: en l1 l2)
  ultimately show ?thesis using b by (auto simp: manifest_path_def)
qed

lemma manifest_match_complete:
  assumes "manifest_path alnum m"
  shows "re_match (manifest_pattern alnum) (m @ rest) 0 g = Some (length m, g)"
proof -
  from assms obtain token where m: "m = str ''/_next/static/'' @ token @ str ''/_buildManifest.js''"
    and ne: "token \<noteq> []" and all: "list_all (token_class alnum) token"
    by (auto simp: manifest_path_def)
  have l1: "length (str ''/_next/static/'') = 14" by (simp add: str_def)
  have l2: "length (str ''/_buildManifest.js'') = 18" by (simp add: str_def)
  have d: "drop 14 (m @ rest) = token @ slash # str ''_buildManifest.js'' @ rest"
    by (simp add: m l1 manifest_suffix)
  have tw: "takeWhile (token_class alnum) (drop 14 (m @ rest)) = token"
    unfolding d using all slash_not_token by (simp add: list_all_iff)
  have dw: "dropWhile (token_class alnum) (drop 14 (m @ rest)) = str ''/_buildManifest.js'' @ rest"
    unfolding d using all slash_not_token by (simp add: list_all_iff manifest_suffix)
  have t: "take 14 (m @ rest) = str ''/_next/static/''" by (simp add: m l1)
  show ?thesis
    unfolding re_match_manifest tw dw t using ne by (simp add: Let_def l2) (simp add: m l1 l2)
qed

lemma re_search_None:
  "re_search items body = None \<longleftrightarrow>
     (\<forall>pre post. body = pre @ post \<longrightarrow> re_match items post 0 (0, 0) = None)"
proof (induction body)
  case Nil
  show ?case by (auto split: option.splits)
next
  case (Cons x xs)
  show ?case
  proof
    assume n: "re_search items (x # xs) = None"
    then have h: "re_match items (x # xs) 0 (0, 0) = None" and t: "re_search items xs = None"
      by (auto split: option.splits)
    show "\<forall>pre post. x # xs = pre @ post \<longrightarrow> re_match items post 0 (0, 0) = None"
    proof (intro allI impI)
      fix pre post assume e: "x # xs = pre @ post"
      show "re_match items post 0 (0, 0) = None"
      proof (cases pre)
        case Nil
        then show ?thesis using e h by simp
      next
        case (Cons y ys)
        then have "xs = ys @ post" using e by simp
        then show ?thesis using t Cons.IH by blast
      qed
    qed
  next
    assume a: "\<forall>pre post. x # xs = pre @ post \<longrightarrow> re_match items post 0 (0, 0) = None"
    then have h: "re_match items (x # xs) 0 (0, 0) = None" by (metis append_Nil)
    have "\<forall>pre post. xs = pre @ post \<longrightarrow> re_match items post 0 (0, 0) = None"
      using a by (metis append_Cons)
    then have "re_search items xs = None" using Cons.IH by blast
    then show "re_search items (x # xs) = None" using h by simp
  qed
qed

lemma re_search_first:
  assumes "re_match items post 0 (0, 0) = Some (en, g)"
    and "\<And>pre' post'. pre @ post = pre' @ post' \<Longrightarrow> length pre' < length pre \<Longrightarrow>
           re_match items post' 0 (0, 0) = None"
  shows "re_search items (pre @ post) = Some (take en post)"
  using assms
proof (induction pre)
  case Nil
  then show ?case by (cases post) (auto split: option.splits)
next
  case (Cons x pre)
  have h: "re_match items (x # pre @ post) 0 (0, 0) = None"
    using Cons.prems(2) [of "[]" "x # pre @ post"] by simp
  have "re_search items (pre @ post) = Some (take en post)"
  proof (rule Cons.IH [OF Cons.prems(1)])
    fix pre' post' assume "pre @ post = pre' @ post'" "length pre' < length pre"
    then show "re_match items post' 0 (0, 0) = None"
      using Cons.prems(2) [of "x # pre'" post'] by simp
  qed
  then show ?case using h by simp
qed

lemma re_search_Some:
  assumes "re_search items body = Some m"
  shows "\<exists>pre post en g. body = pre @ post \<and> re_match items post 0 (0, 0) = Some (en, g)
           \<and> m = take en post
           \<and> (\<forall>pre' post'. body = pre' @ post' \<and> length pre' < length pre
                \<longrightarrow> re_match items post' 0 (0, 0) = None)"
  using assms
proof (induction body)
  case Nil
  then show ?case by (auto split: option.splits)
next
  case (Cons x xs)
  show ?case
  proof (cases "re_match items (x # xs) 0 (0, 0)")
    case (Some r)
    obtain en g where r: "r = (en, g)" by (cases r) auto
    have "m = take en (x # xs)" using Cons.prems Some r by (cases g) simp
    then have "x # xs = [] @ (x # xs) \<and> re_match items (x # xs) 0 (0, 0) = Some (en, g)
           \<and> m = take en (x # xs)
           \<and> (\<forall>pre' post'. x # xs = pre' @ post' \<and> length pre' < length ([]::pystr)
                \<longrightarrow> re_match items post' 0 (0, 0) = None)"
      using Some r by simp
    then show ?thesis by blast
  next
    case None
    then have "re_search items xs = Some m" using Cons.prems by simp
    then obtain pre post en g where p: "xs = pre @ post"
      "re_match items post 0 (0, 0) = Some (en, g)" "m = take en post"
      "\<forall>pre' post'. xs = pre' @ post' \<and> length pre' < length pre
                \<longrightarrow> re_match items post' 0 (0, 0) = None"
      using Cons.IH by blast
    have "\<forall>pre' post'. x # xs = pre' @ post' \<and> length pre' < length (x # pre)
                \<longrightarrow> re_match items post' 0 (0, 0) = None"
    proof (intro allI impI)
      fix pre' post' assume a: "x # xs = pre' @ post' \<and> length pre' < length (x # pre)"
      show "re_match items post' 0 (0, 0) = None"
      proof (cases pre')
        case Nil
        then show ?thesis using a None by simp
      next
        case (Cons y ys)
        then have "xs = ys @ post' \<and> length ys < length pre" using a by simp
        then show ?thesis using p(4) by blast
      qed
    qed
    then have "x # xs = (x # pre) @ post \<and> re_match items post 0 (0, 0) = Some (en, g)
           \<and> m = take en post
           \<and> (\<forall>pre' post'. x # xs = pre' @ post' \<and> length pre' < length (x # pre)
                \<longrightarrow> re_match items post' 0 (0, 0) = None)"
      using p by simp
    then show ?thesis by blast
  qed
qed

lemma manifest_path_None:
  "get_build_manifest_path alnum body = None \<longleftrightarrow> \<not> contains_match (manifest_path alnum) body"
proof
  assume n: "get_build_manifest_path alnum body = None"
  show "\<not> contains_match (manifest_path alnum) body"
  proof
    assume "contains_match (manifest_path alnum) body"
    then obtain pre m post where b: "body = pre @ m @ post" and m: "manifest_path alnum m"
      by (auto simp: contains_match_def)
    have "re_match (manifest_pattern alnum) (m @ post) 0 (0, 0) = None"
      using n b by (simp add: get_build_manifest_path_def re_search_None)
    then show False using manifest_match_complete [OF m] by simp
  qed
next
  assume c: "\<not> contains_match (manifest_path alnum) body"
  have "re_match (manifest_pattern alnum) post 0 (0, 0) = None" if b: "body = pre @ post" for pre post
  proof (cases "re_match (manifest_pattern alnum) post 0 (0, 0)")
    case None
    then show ?thesis .
  next
    case (Some r)
    obtain en g where "r = (en, g)" by (cases r) auto
    then have "manifest_path alnum (take en post)" using Some manifest_match_sound by blast
    moreover have "body = pre @ take en post @ drop en post" using b by simp
    ultimately show ?thesis using c unfolding contains_match_def by blast
  qed
  then show "get_build_manifest_path alnum body = None"
    by (simp add: get_build_manifest_path_def re_search_None)
qed

lemma manifest_path_Some:
  "get_build_manifest_path alnum body = Some m \<longleftrightarrow> leftmost_match (manifest_path alnum) body m"
proof
  assume "get_build_manifest_path alnum body = Some m"
  then obtain pre post en g where b: "body = pre @ post"
    and r: "re_match (manifest_pattern alnum) post 0 (0, 0) = Some (en, g)"
    and m: "m = take en post"
    and first: "\<forall>pre' post'. body = pre' @ post' \<and> length pre' < length pre
                \<longrightarrow> re_match (manifest_pattern alnum) post' 0 (0, 0) = None"
    using re_search_Some [of "manifest_pattern alnum" body m]
    by (auto simp: get_build_manifest_path_def)
  have pm: "manifest_path alnum m" using manifest_match_sound [OF r] m by simp
  have b': "body = pre @ m @ drop en post" using b m by simp
  have "length pre \<le> length pre'"
    if "manifest_path alnum m' \<and> body = pre' @ m' @ post'" for pre' m' post'
  proof (rule ccontr)
    assume "\<not> length pre \<le> length pre'"
    then have "re_match (manifest_pattern alnum) (m' @ post') 0 (0, 0) = None"
      using first that by (metis not_le_imp_less)
    then show False using manifest_match_complete [of alnum m' post' "(0, 0)"] that by simp
  qed
  then show "leftmost_match (manifest_path alnum) body m"
    unfolding leftmost_match_def using pm b' by blast
next
  assume "leftmost_match (manifest_path alnum) body m"
  then obtain pre post where pm: "manifest_path alnum m" and b: "body = pre @ m @ post"
    and least: "\<And>pre' m' post'. manifest_path alnum m' \<Longrightarrow> body = pre' @ m' @ post'
                  \<Longrightarrow> length pre \<le> length pre'"
    unfolding leftmost_match_def by blast
  have r: "re_match (manifest_pattern alnum) (m @ post) 0 (0, 0) = Some (length m, (0, 0))"
    by (rule manifest_match_complete [OF pm])
  have "re_search (manifest_pattern alnum) (pre @ m @ post) = Some (take (length m) (m @ post))"
  proof (rule re_search_first [OF r])
    fix pre' post' assume e: "pre @ m @ post = pre' @ post'" and l: "length pre' < length pre"
    show "re_match (manifest_pattern alnum) post' 0 (0, 0) = None"
    proof (cases "re_match (manifest_pattern alnum) post' 0 (0, 0)")
      case None
      then show ?thesis .
    next
      case (Some r')
      obtain en g where "r' = (en, g)" by (cases r') auto
      then have "manifest_path alnum (take en post')" using Some manifest_match_sound by blast
      moreover have "body = pre' @ take en post' @ drop en post'" using b e by simp
      ultimately have "length pre \<le> length pre'" by (rule least)
      then show ?thesis using l by simp
    qed
  qed
  then show "get_build_manifest_path alnum body = Some m"
    by (simp add: get_build_manifest_path_def b)
qed

lemma dquote_not_path: "\<not> path_class dquote"
  by (simp add: path_class_def in_range_def dquote_def)

lemma path_class_slash: "path_class slash"
  by (simp add: path_class_def slash_def)


lemma re_match_route:
  "re_match route_pattern s 0 (0, 0) =
     (case s of
        q # sl # t \<Rightarrow>
          if q = dquote \<and> sl = slash \<and> takeWhile path_class t \<noteq> []
             \<and> (case dropWhile path_class t of [] \<Rightarrow> False | c # u \<Rightarrow> c = dquote)
          then Some (length (takeWhile path_class t) + 3, 1, length (takeWhile path_class t) + 2)
          else None
      | _ \<Rightarrow> None)"
proof (cases s)
  case Nil
  then show ?thesis by (simp add: route_pattern_def)
next
  case (Cons q s')
  show ?thesis
  proof (cases s')
    case Nil
    then show ?thesis using Cons by (simp add: route_pattern_def)
  next
    case (Cons sl t)
    have A: "re_match route_pattern (q # sl # t) 0 (0, 0) =
        (if q = dquote \<and> sl = slash
         then re_match (Plus path_class # GroupClose # Lit dquote # []) t 2 (1, 0) else None)"
      by (simp add: route_pattern_def numeral_2_eq_2 del: re_match.simps(4))
    have B: "re_match (Plus path_class # GroupClose # Lit dquote # []) t 2 (1, 0) =
        (if takeWhile path_class t = [] then None
         else re_match (Lit dquote # []) (dropWhile path_class t)
                (2 + length (takeWhile path_class t)) (1, 2 + length (takeWhile path_class t)))"
      by (rule re_match_plus_close_lit [of path_class dquote, OF dquote_not_path])
    have C: "re_match (Lit dquote # []) u p g =
        (case u of [] \<Rightarrow> None | c # v \<Rightarrow> if c = dquote then Some (Suc p, g) else None)" for u p g
      by (cases u) simp_all
    show ?thesis
      unfolding \<open>s = q # s'\<close> Cons A B C
      by (simp split: list.splits) (metis dropWhile_eq_Nil_conv list.distinct(1))
  qed
qed

lemma route_match_sound:
  assumes "re_match route_pattern s 0 (0, 0) = Some (en, gs, ge)"
  shows "\<exists>tok rest. s = dquote # slash # tok @ dquote # rest \<and> tok \<noteq> []
           \<and> list_all path_class tok \<and> en = length tok + 3 \<and> slice s gs ge = slash # tok"
proof -
  from assms obtain q sl t where s: "s = q # sl # t"
    by (cases s; cases "tl s") (auto simp: re_match_route)
  define tok where "tok = takeWhile path_class t"
  from assms s have q: "q = dquote" and sl: "sl = slash" and ne: "tok \<noteq> []"
    and d: "(case dropWhile path_class t of [] \<Rightarrow> False | c # u \<Rightarrow> c = dquote)"
    and en: "en = length tok + 3" and gs: "gs = 1" and ge: "ge = length tok + 2"
    by (auto simp: re_match_route tok_def split: if_splits)
  from d obtain rest where dw: "dropWhile path_class t = dquote # rest"
    by (cases "dropWhile path_class t") auto
  have t: "t = tok @ dquote # rest"
    unfolding tok_def using dw by (metis takeWhile_dropWhile_id)
  have all: "list_all path_class tok"
    unfolding tok_def list_all_iff by (meson set_takeWhileD)
  have "slice s gs ge = slash # tok"
    by (simp add: slice_def s gs ge t sl)
  then show ?thesis using s q sl t ne all en by blast
qed

lemma route_match_complete:
  assumes "tok \<noteq> []" and "list_all path_class tok"
  shows "re_match route_pattern (dquote # slash # tok @ dquote # rest) 0 (0, 0)
         = Some (length tok + 3, 1, length tok + 2)"
proof -
  have tw: "takeWhile path_class (tok @ dquote # rest) = tok"
    using assms(2) dquote_not_path by (simp add: list_all_iff)
  have dw: "dropWhile path_class (tok @ dquote # rest) = dquote # rest"
    using assms(2) dquote_not_path by (simp add: list_all_iff)
  show ?thesis using assms(1) by (simp add: re_match_route tw dw)
qed

lemma quoted_in_Cons: "quoted_in xs w \<Longrightarrow> quoted_in (x # xs) w"
  unfolding quoted_in_def by (metis append_Cons)

lemma findall_scan_sound:
  "w \<in> set (findall_scan route_pattern k s) \<Longrightarrow> route_literal w \<and> quoted_in s w"
proof (induction s arbitrary: k)
  case Nil
  then show ?case by (auto simp: re_match_route split: if_splits)
next
  case (Cons x xs)
  show ?case
  proof (cases "0 < k")
    case True
    then show ?thesis using Cons.prems Cons.IH [of "k - 1"] by (simp add: quoted_in_Cons)
  next
    case False
    show ?thesis
    proof (cases "re_match route_pattern (x # xs) 0 (0, 0)")
      case None
      then show ?thesis using False Cons.prems Cons.IH [of 0] by (simp add: quoted_in_Cons)
    next
      case (Some r)
      obtain en gs ge where r: "r = (en, gs, ge)" by (cases r) auto
      from route_match_sound [OF Some [unfolded r]] obtain tok rest where
        m: "x # xs = dquote # slash # tok @ dquote # rest" "tok \<noteq> []" "list_all path_class tok"
           "slice (x # xs) gs ge = slash # tok"
        by blast
      have here: "route_literal (slash # tok) \<and> quoted_in (x # xs) (slash # tok)"
        unfolding route_literal_def quoted_in_def using m by (metis append_Cons append_Nil)
      have "w = slash # tok \<or> w \<in> set (findall_scan route_pattern (en - 1) xs)"
        using Cons.prems False Some r m(4) by simp
      then show ?thesis using here Cons.IH [of "en - 1"] by (auto simp: quoted_in_Cons)
    qed
  qed
qed



lemma findall_scan_Nil_iff:
  "findall_scan items 0 s = [] \<longleftrightarrow> re_search items s = None"
  by (induction s) (auto split: option.splits)

lemma no_route_iff:
  "re_findall route_pattern text = [] \<longleftrightarrow> \<not> (\<exists>w. quoted_in text w \<and> route_literal w)"
proof
  assume e: "re_findall route_pattern text = []"
  show "\<not> (\<exists>w. quoted_in text w \<and> route_literal w)"
  proof
    assume "\<exists>w. quoted_in text w \<and> route_literal w"
    then obtain w pre post tok where t: "text = pre @ dquote # w @ dquote # post"
      and w: "w = slash # tok" "tok \<noteq> []" "list_all path_class tok"
      by (auto simp: quoted_in_def route_literal_def)
    have "re_match route_pattern (dquote # slash # tok @ dquote # post) 0 (0, 0) = None"
      using e t w(1) by (simp add: re_findall_def findall_scan_Nil_iff re_search_None)
    then show False using route_match_complete [OF w(2,3)] by simp
  qed
next
  assume n: "\<not> (\<exists>w. quoted_in text w \<and> route_literal w)"
  have "re_match route_pattern post 0 (0, 0) = None" if b: "text = pre @ post" for pre post
  proof (cases "re_match route_pattern post 0 (0, 0)")
    case None
    then show ?thesis .
  next
    case (Some r)
    obtain en gs ge where r: "r = (en, gs, ge)" by (cases r) auto
    from route_match_sound [OF Some [unfolded r]] obtain tok rest where
      m: "post = dquote # slash # tok @ dquote # rest" "tok \<noteq> []" "list_all path_class tok"
      by blast
    have "quoted_in text (slash # tok)" unfolding quoted_in_def using b m(1) by auto
    moreover have "route_literal (slash # tok)" using m(2,3) by (simp add: route_literal_def)
    ultimately show ?thesis using n by blast
  qed
  then show "re_findall route_pattern text = []"
    by (simp add: re_findall_def findall_scan_Nil_iff re_search_None)
qed

subsection \<open>The driver\<close>

lemma valid_url_nonempty:
  "startswith url (str ''http://'') \<or> startswith url (str ''https://'') \<Longrightarrow> url \<noteq> []"
  by (auto simp: startswith_def str_def)

lemma start_valid:
  assumes "startswith url (str ''http://'') \<or> startswith url (str ''https://'')"
  shows "start alnum iter http url =
     (case get_page_content http url init_world of (page_content, w2) \<Rightarrow>
      if_not_return page_content w2 (\<lambda>page_content.
      if_not_return (get_build_manifest_path alnum page_content)
        (print (str ''_buildManifest.js wasn't found. Is this site really running Next.js?'') w2)
        (\<lambda>build_manifest_path.
      let build_manifest_url = url @ build_manifest_path in
      case get_build_manifest_content http build_manifest_url w2 of (build_manifest_content, w3) \<Rightarrow>
      if_not_return build_manifest_content w3 (\<lambda>build_manifest_content.
      let paths = parse_build_manifest_content build_manifest_content
      in print (join [newline] (iter paths)) w3))))"
proof -
  have "parse_url url init_world = (Some url, init_world)"
    using assms by (auto simp: parse_url_def)
  then show ?thesis
    using valid_url_nonempty [OF assms] by (simp add: start_def if_not_return_def)
qed

lemma manifest_path_nonempty: "manifest_path alnum m \<Longrightarrow> m \<noteq> []"
  by (auto simp: manifest_path_def str_def)

lemma located_nonempty:
  assumes "get_build_manifest_path alnum page = Some p"
  shows "page \<noteq> [] \<and> p \<noteq> []"
proof -
  have "leftmost_match (manifest_path alnum) page p" using assms manifest_path_Some by blast
  then obtain pre post where "manifest_path alnum p" "page = pre @ p @ post"
    unfolding leftmost_match_def by blast
  then show ?thesis using manifest_path_nonempty by auto
qed

lemma start_located:
  assumes "startswith url (str ''http://'') \<or> startswith url (str ''https://'')"
    and "http url = Inr page"
    and "get_build_manifest_path alnum page = Some p"
  shows "start alnum iter http url =
     (case http (url @ p) of
        Inl e \<Rightarrow> \<lparr>stdout = str ''Error accessing buildManifest content: '' @ e @ [newline],
                  fetched = [url, url @ p]\<rparr>
      | Inr text \<Rightarrow>
          if text = [] then \<lparr>stdout = [], fetched = [url, url @ p]\<rparr>
          else \<lparr>stdout = join [newline] (iter (parse_build_manifest_content text)) @ [newline],
                fetched = [url, url @ p]\<rparr>)"
  using located_nonempty [OF assms(3)] assms(2,3)
  by (simp add: start_valid [OF assms(1)] get_page_content_def get_build_manifest_content_def
      if_not_return_def init_world_def print_def Let_def split: sum.splits)

lemma start_page_failure:
  assumes "startswith url (str ''http://'') \<or> startswith url (str ''https://'')"
    and "http url = Inl e"
  shows "start alnum iter http url =
     \<lparr>stdout = str ''Error when accessing the URL: '' @ e @ [newline], fetched = [url]\<rparr>"
  using assms(2)
  by (simp add: start_valid [OF assms(1)] get_page_content_def if_not_return_def
      init_world_def print_def Let_def)

lemma start_page_empty:
  assumes "startswith url (str ''http://'') \<or> startswith url (str ''https://'')"
    and "http url = Inr []"
  shows "start alnum iter http url = \<lparr>stdout = [], fetched = [url]\<rparr>"
  using assms(2)
  by (simp add: start_valid [OF assms(1)] get_page_content_def if_not_return_def
      init_world_def Let_def)

lemma start_not_located:
  assumes "startswith url (str ''http://'') \<or> startswith url (str ''https://'')"
    and "http url = Inr page" and "page \<noteq> []"
    and "get_build_manifest_path alnum page = None"
  shows "start alnum iter http url =
     \<lparr>stdout = str ''_buildManifest.js wasn't found. Is this site really running Next.js?'' @ [newline],
      fetched = [url]\<rparr>"
  using assms(2,3,4)
  by (simp add: start_valid [OF assms(1)] get_page_content_def if_not_return_def
      init_world_def print_def Let_def)

lemma example_page_path:
  "get_build_manifest_path ascii_only example_page = Some (str ''/_next/static/xyz/_buildManifest.js'')"
  by code_simp

lemma example_url_valid:
  "startswith example_url (str ''http://'') \<or> startswith example_url (str ''https://'')"
  by (simp add: startswith_def example_url_def str_def)

lemma example_second_url:
  "mock_http example_url page manifest (example_url @ str ''/_next/static/xyz/_buildManifest.js'')
     = manifest"
  by (simp add: mock_http_def) (simp add: str_def)

lemma set_iteration_sorted: "set_iteration sorted_list_of_set"
  by (simp add: set_iteration_def)

lemma set_iteration_empty: "set_iteration iter \<Longrightarrow> iter {} = []"
  unfolding set_iteration_def by (metis finite.emptyI set_empty)


lemma example_manifest_routes:
  "parse_build_manifest_content example_manifest = {str ''/a'', str ''/b/[id]''}"
  by code_simp


lemma path_class_not_space: "path_class c \<Longrightarrow> \<not> whitespace c \<and> c \<noteq> dquote"
  by (auto simp: path_class_def whitespace_def in_range_def dquote_def)

lemma route_literal_chars:
  assumes "route_literal w"
  shows "w \<noteq> [] \<and> hd w = slash \<and> list_all path_class w \<and> 2 \<le> length w"
proof -
  from assms obtain rest where "w = slash # rest" "rest \<noteq> []" "list_all path_class rest"
    by (auto simp: route_literal_def)
  then show ?thesis using path_class_slash by (cases rest) auto
qed

subsection \<open>The claims\<close>



text \<open>
  C2. An address that starts with neither \<^verbatim>\<open>http://\<close> nor \<^verbatim>\<open>https://\<close>: the run
  writes the line asking for the protocol and nothing else, and requests nothing.
\<close>

theorem start_without_protocol:
  assumes "\<not> startswith url (str ''http://'')" and "\<not> startswith url (str ''https://'')"
  shows "start alnum iter http url =
     \<lparr>stdout = str ''Please include the protocol (http:// or https://) in the URL.'' @ [newline],
      fetched = []\<rparr>"
  using assms by (simp add: start_def parse_url_def if_not_return_def print_def init_world_def)

theorem start_without_protocol_witness:
  "\<not> startswith (str ''example.com'') (str ''http://'')
   \<and> \<not> startswith (str ''example.com'') (str ''https://'')
   \<and> start ascii_only sorted_list_of_set (mock_http example_url (Inr example_page) (Inr example_manifest))
        (str ''example.com'') =
     \<lparr>stdout = str ''Please include the protocol (http:// or https://) in the URL.'' @ [newline],
      fetched = []\<rparr>"
proof -
  have a: "\<not> startswith (str ''example.com'') (str ''http://'')"
    and b: "\<not> startswith (str ''example.com'') (str ''https://'')"
    by (simp_all add: startswith_def str_def)
  show ?thesis using a b start_without_protocol [OF a b] by simp
qed




text \<open>
  C4. For every page text the locator returns the leftmost piece of the text that is
  \<^verbatim>\<open>/_next/static/\<close>, one or more word or hyphen characters, \<^verbatim>\<open>/_buildManifest.js\<close>,
  and returns it as it stands; it returns \<^verbatim>\<open>None\<close> exactly when the text has no such piece.
\<close>

theorem get_build_manifest_path_leftmost:
  "(get_build_manifest_path alnum body = Some m
      \<longleftrightarrow> leftmost_match (manifest_path alnum) body m)
   \<and> (get_build_manifest_path alnum body = None
      \<longleftrightarrow> \<not> contains_match (manifest_path alnum) body)"
proof (intro conjI)
  show "get_build_manifest_path alnum body = Some m
      \<longleftrightarrow> leftmost_match (manifest_path alnum) body m"
    by (rule manifest_path_Some)
  show "get_build_manifest_path alnum body = None
      \<longleftrightarrow> \<not> contains_match (manifest_path alnum) body"
    by (rule manifest_path_None)
qed

theorem get_build_manifest_path_leftmost_witness:
  \<open>get_build_manifest_path ascii_only
      (str ''<script src="/_next/static/abc123/_buildManifest.js" defer=""></script>'')
    = Some (str ''/_next/static/abc123/_buildManifest.js'')
   \<and> leftmost_match (manifest_path ascii_only)
      (str ''<script src="/_next/static/abc123/_buildManifest.js" defer=""></script>'')
      (str ''/_next/static/abc123/_buildManifest.js'')
   \<and> get_build_manifest_path ascii_only (str ''<html>/_next/static//_buildManifest.js</html>'') = None
   \<and> \<not> contains_match (manifest_path ascii_only) (str ''<html>/_next/static//_buildManifest.js</html>'')\<close>
proof -
  have a: \<open>get_build_manifest_path ascii_only
      (str ''<script src="/_next/static/abc123/_buildManifest.js" defer=""></script>'')
    = Some (str ''/_next/static/abc123/_buildManifest.js'')\<close>
    by code_simp
  have b: \<open>get_build_manifest_path ascii_only (str ''<html>/_next/static//_buildManifest.js</html>'') = None\<close>
    by code_simp
  show ?thesis
    using a b
      get_build_manifest_path_leftmost [of ascii_only
        \<open>str ''<script src="/_next/static/abc123/_buildManifest.js" defer=""></script>''\<close>
        \<open>str ''/_next/static/abc123/_buildManifest.js''\<close>]
      get_build_manifest_path_leftmost [of ascii_only
        \<open>str ''<html>/_next/static//_buildManifest.js</html>''\<close> \<open>[]\<close>]
    by blast
qed

text \<open>
  C5, as amended. For every page text that is not empty and has no piece of the shape of
  a manifest path, the locator returns \<^verbatim>\<open>None\<close>, and the run writes the line saying that
  \<^verbatim>\<open>_buildManifest.js\<close> was not found, and nothing else, after the one request for the page.
\<close>

theorem start_manifest_not_found:
  assumes "startswith url (str ''http://'') \<or> startswith url (str ''https://'')"
    and "http url = Inr page" and "page \<noteq> []"
    and "\<not> contains_match (manifest_path alnum) page"
  shows "get_build_manifest_path alnum page = None
       \<and> start alnum iter http url =
           \<lparr>stdout = str ''_buildManifest.js wasn't found. Is this site really running Next.js?''
              @ [newline],
            fetched = [url]\<rparr>"
proof -
  have n: "get_build_manifest_path alnum page = None"
    using assms(4) manifest_path_None by blast
  show ?thesis using n start_not_located [where http = http and url = url, OF assms(1,2,3) n] by simp
qed

theorem start_manifest_not_found_witness:
  "(startswith example_url (str ''http://'') \<or> startswith example_url (str ''https://''))
   \<and> mock_http example_url (Inr (str ''<html></html>'')) (Inr example_manifest) example_url
       = Inr (str ''<html></html>'')
   \<and> str ''<html></html>'' \<noteq> []
   \<and> \<not> contains_match (manifest_path ascii_only) (str ''<html></html>'')
   \<and> start ascii_only sorted_list_of_set
        (mock_http example_url (Inr (str ''<html></html>'')) (Inr example_manifest)) example_url
      = \<lparr>stdout = str ''_buildManifest.js wasn't found. Is this site really running Next.js?''
              @ [newline],
         fetched = [example_url]\<rparr>"
proof -
  have h: "mock_http example_url (Inr (str ''<html></html>'')) (Inr example_manifest) example_url
       = Inr (str ''<html></html>'')"
    by (simp add: mock_http_def)
  have ne: "str ''<html></html>'' \<noteq> []" by (simp add: str_def)
  have "get_build_manifest_path ascii_only (str ''<html></html>'') = None" by code_simp
  then have nm: "\<not> contains_match (manifest_path ascii_only) (str ''<html></html>'')"
    using manifest_path_None by blast
  show ?thesis
    using example_url_valid h ne nm
      start_manifest_not_found [where url = example_url
        and http = "mock_http example_url (Inr (str ''<html></html>'')) (Inr example_manifest)"
        and iter = sorted_list_of_set, OF example_url_valid h ne nm]
    by simp
qed

text \<open>
  C5 as it is stated fails at the empty page text: it has no manifest path, and the run
  ends at \<^verbatim>\<open>if not page_content: return\<close> with nothing written.
\<close>

theorem start_manifest_not_found_counterexample:
  "\<not> contains_match (manifest_path ascii_only) []
   \<and> get_build_manifest_path ascii_only [] = None
   \<and> stdout (start ascii_only sorted_list_of_set
        (mock_http example_url (Inr []) (Inr example_manifest)) example_url) = []
   \<and> stdout (start ascii_only sorted_list_of_set
        (mock_http example_url (Inr []) (Inr example_manifest)) example_url)
       \<noteq> str ''_buildManifest.js wasn't found. Is this site really running Next.js?'' @ [newline]"
proof -
  have n: "get_build_manifest_path ascii_only [] = None" by code_simp
  have h: "mock_http example_url (Inr []) (Inr example_manifest) example_url = Inr []"
    by (simp add: mock_http_def)
  show ?thesis
    using n manifest_path_None [of ascii_only "[]"] start_page_empty [where url = example_url
        and http = "mock_http example_url (Inr []) (Inr example_manifest)", OF example_url_valid h]
    by simp
qed

text \<open>
  C6, as amended. For every manifest text without a route literal between double quotes
  the extractor returns the empty set, and the run writes no route: when the text is not
  empty, the last step writes one empty line, and when it is empty the run ends before the
  last step and writes nothing.
\<close>

theorem no_route_literal:
  assumes "\<not> has_route_literal content"
  shows "parse_build_manifest_content content = {}
     \<and> (set_iteration iter
          \<and> (startswith url (str ''http://'') \<or> startswith url (str ''https://''))
          \<and> http url = Inr page \<and> get_build_manifest_path alnum page = Some p
          \<and> http (url @ p) = Inr content \<longrightarrow>
        start alnum iter http url =
          \<lparr>stdout = (if content = [] then [] else [newline]), fetched = [url, url @ p]\<rparr>)"
proof (intro conjI impI)
  show e: "parse_build_manifest_content content = {}"
    using assms no_route_iff [of content]
    by (simp add: parse_build_manifest_content_def has_route_literal_def)
  assume a: "set_iteration iter
          \<and> (startswith url (str ''http://'') \<or> startswith url (str ''https://''))
          \<and> http url = Inr page \<and> get_build_manifest_path alnum page = Some p
          \<and> http (url @ p) = Inr content"
  then have v: "startswith url (str ''http://'') \<or> startswith url (str ''https://'')"
    and h: "http url = Inr page" and g: "get_build_manifest_path alnum page = Some p"
    by simp_all
  show "start alnum iter http url =
          \<lparr>stdout = (if content = [] then [] else [newline]), fetched = [url, url @ p]\<rparr>"
    using a e set_iteration_empty [of iter]
      start_located [where http = http and url = url and iter = iter, OF v h g]
    by simp
qed

theorem no_route_literal_witness:
  "\<not> has_route_literal (str ''{}'')
   \<and> parse_build_manifest_content (str ''{}'') = {}
   \<and> set_iteration sorted_list_of_set
   \<and> start ascii_only sorted_list_of_set
        (mock_http example_url (Inr example_page) (Inr (str ''{}''))) example_url
      = \<lparr>stdout = [newline],
         fetched = [example_url, example_url @ str ''/_next/static/xyz/_buildManifest.js'']\<rparr>"
proof -
  have "re_findall route_pattern (str ''{}'') = []" by code_simp
  then have n: "\<not> has_route_literal (str ''{}'')"
    using no_route_iff [of "str ''{}''"] by (simp add: has_route_literal_def)
  have h: "mock_http example_url (Inr example_page) (Inr (str ''{}'')) example_url = Inr example_page"
    by (simp add: mock_http_def)
  have ne: "str ''{}'' \<noteq> []" by (simp add: str_def)
  show ?thesis
    using n h ne example_url_valid example_page_path set_iteration_sorted
      example_second_url [of "Inr example_page" "Inr (str ''{}'')"]
      no_route_literal [where content = "str ''{}''" and url = example_url
        and http = "mock_http example_url (Inr example_page) (Inr (str ''{}''))"
        and iter = sorted_list_of_set and alnum = ascii_only and page = example_page
        and p = "str ''/_next/static/xyz/_buildManifest.js''", OF n]
    by simp
qed

text \<open>
  C6 as it is stated fails at the manifest text \<^verbatim>\<open>{}\<close>: \<^verbatim>\<open>print\<close> of the empty join
  writes a newline.
\<close>

theorem no_route_literal_counterexample:
  "\<not> has_route_literal (str ''{}'')
   \<and> stdout (start ascii_only sorted_list_of_set
        (mock_http example_url (Inr example_page) (Inr (str ''{}''))) example_url) = [newline]
   \<and> stdout (start ascii_only sorted_list_of_set
        (mock_http example_url (Inr example_page) (Inr (str ''{}''))) example_url) \<noteq> []"
proof -
  have "re_findall route_pattern (str ''{}'') = []" by code_simp
  then have n: "\<not> has_route_literal (str ''{}'')"
    using no_route_iff [of "str ''{}''"] by (simp add: has_route_literal_def)
  then have e: "parse_build_manifest_content (str ''{}'') = {}"
    using no_route_iff [of "str ''{}''"]
    by (simp add: parse_build_manifest_content_def has_route_literal_def)
  have h: "mock_http example_url (Inr example_page) (Inr (str ''{}'')) example_url = Inr example_page"
    by (simp add: mock_http_def)
  have ne: "str ''{}'' \<noteq> []" by (simp add: str_def)
  show ?thesis
    using n e ne example_second_url [of "Inr example_page" "Inr (str ''{}'')"]
      start_located [where url = example_url
        and http = "mock_http example_url (Inr example_page) (Inr (str ''{}''))"
        and iter = sorted_list_of_set, OF example_url_valid h example_page_path]
    by simp
qed

text \<open>
  C7. For every address that passed \<open>parse_url\<close> and every path the locator found in the
  page, the second request goes to the address followed by the path, as they stand.
\<close>

theorem start_manifest_url:
  assumes "startswith url (str ''http://'') \<or> startswith url (str ''https://'')"
    and "http url = Inr page_content"
    and "get_build_manifest_path alnum page_content = Some build_manifest_path"
  shows "fetched (start alnum iter http url) = [url, url @ build_manifest_path]"
  by (simp add: start_located [where http = http and url = url, OF assms] split: sum.splits)

theorem start_manifest_url_witness:
  "(startswith example_url (str ''http://'') \<or> startswith example_url (str ''https://''))
   \<and> mock_http example_url (Inr example_page) (Inr example_manifest) example_url = Inr example_page
   \<and> get_build_manifest_path ascii_only example_page = Some (str ''/_next/static/xyz/_buildManifest.js'')
   \<and> fetched (start ascii_only sorted_list_of_set
        (mock_http example_url (Inr example_page) (Inr example_manifest)) example_url)
      = [example_url, example_url @ str ''/_next/static/xyz/_buildManifest.js'']"
proof -
  have h: "mock_http example_url (Inr example_page) (Inr example_manifest) example_url = Inr example_page"
    by (simp add: mock_http_def)
  show ?thesis
    using example_url_valid h example_page_path
      start_manifest_url [where url = example_url
        and http = "mock_http example_url (Inr example_page) (Inr example_manifest)"
        and iter = sorted_list_of_set, OF example_url_valid h example_page_path]
    by simp
qed

text \<open>
  C8. For every address that starts with \<^verbatim>\<open>http://\<close> or \<^verbatim>\<open>https://\<close>, \<open>parse_url\<close>
  returns the address as it is and writes nothing.
\<close>

theorem parse_url_valid:
  "startswith url (str ''http://'') \<or> startswith url (str ''https://'') \<Longrightarrow>
   parse_url url w = (Some url, w)"
  by (auto simp: parse_url_def)

theorem parse_url_valid_witness:
  "(startswith example_url (str ''http://'') \<or> startswith example_url (str ''https://''))
   \<and> parse_url example_url init_world = (Some example_url, init_world)"
proof -
  have v: "startswith example_url (str ''http://'') \<or> startswith example_url (str ''https://'')"
    by (simp add: startswith_def example_url_def str_def)
  show ?thesis using v parse_url_valid [OF v, of init_world] by simp
qed

text \<open>
  C9. A request that succeeds with an empty body ends the run at the step where a failed
  request ends it: the same requests have been made, no route list is written (nothing
  is written at all, where the failed request leaves its error line), and at the
  driver's check the empty string and \<^verbatim>\<open>None\<close> are the same.
\<close>

theorem start_empty_body:
  assumes "startswith url (str ''http://'') \<or> startswith url (str ''https://'')"
  shows "(http url = Inr [] \<longrightarrow>
            start alnum iter http url = \<lparr>stdout = [], fetched = [url]\<rparr>)
       \<and> (http url = Inl e \<longrightarrow>
            start alnum iter http url =
              \<lparr>stdout = str ''Error when accessing the URL: '' @ e @ [newline], fetched = [url]\<rparr>)
       \<and> (http url = Inr page \<and> get_build_manifest_path alnum page = Some p
            \<and> http (url @ p) = Inr [] \<longrightarrow>
            start alnum iter http url = \<lparr>stdout = [], fetched = [url, url @ p]\<rparr>)
       \<and> (http url = Inr page \<and> get_build_manifest_path alnum page = Some p
            \<and> http (url @ p) = Inl e \<longrightarrow>
            start alnum iter http url =
              \<lparr>stdout = str ''Error accessing buildManifest content: '' @ e @ [newline],
               fetched = [url, url @ p]\<rparr>)
       \<and> if_not_return (Some []) halt rest = if_not_return None halt rest"
proof (intro conjI impI)
  assume "http url = Inr []"
  then show "start alnum iter http url = \<lparr>stdout = [], fetched = [url]\<rparr>"
    by (rule start_page_empty [where http = http and url = url, OF assms])
next
  assume "http url = Inl e"
  then show "start alnum iter http url =
      \<lparr>stdout = str ''Error when accessing the URL: '' @ e @ [newline], fetched = [url]\<rparr>"
    by (rule start_page_failure [where http = http and url = url, OF assms])
next
  assume a: "http url = Inr page \<and> get_build_manifest_path alnum page = Some p
            \<and> http (url @ p) = Inr []"
  then show "start alnum iter http url = \<lparr>stdout = [], fetched = [url, url @ p]\<rparr>"
    using start_located [where http = http and url = url and page = page and p = p, OF assms]
    by simp
next
  assume a: "http url = Inr page \<and> get_build_manifest_path alnum page = Some p
            \<and> http (url @ p) = Inl e"
  then show "start alnum iter http url =
      \<lparr>stdout = str ''Error accessing buildManifest content: '' @ e @ [newline],
       fetched = [url, url @ p]\<rparr>"
    using start_located [where http = http and url = url and page = page and p = p, OF assms]
    by simp
next
  show "if_not_return (Some []) halt rest = if_not_return None halt rest"
    by (simp add: if_not_return_def)
qed

theorem start_empty_body_witness:
  "(startswith example_url (str ''http://'') \<or> startswith example_url (str ''https://''))
   \<and> start ascii_only sorted_list_of_set (mock_http example_url (Inr []) (Inr example_manifest))
        example_url
      = \<lparr>stdout = [], fetched = [example_url]\<rparr>
   \<and> start ascii_only sorted_list_of_set (mock_http example_url (Inr example_page) (Inr []))
        example_url
      = \<lparr>stdout = [],
         fetched = [example_url, example_url @ str ''/_next/static/xyz/_buildManifest.js'']\<rparr>"
proof -
  have h1: "mock_http example_url (Inr []) (Inr example_manifest) example_url = Inr []"
    by (simp add: mock_http_def)
  have h2: "mock_http example_url (Inr example_page) (Inr []) example_url = Inr example_page"
    by (simp add: mock_http_def)
  show ?thesis
    using example_url_valid h1 h2 example_page_path
      example_second_url [of "Inr example_page" "Inr []"]
      start_empty_body [where url = example_url
        and http = "mock_http example_url (Inr []) (Inr example_manifest)"
        and alnum = ascii_only and iter = sorted_list_of_set, OF example_url_valid]
      start_empty_body [where url = example_url
        and http = "mock_http example_url (Inr example_page) (Inr [])"
        and alnum = ascii_only and iter = sorted_list_of_set and page = example_page
        and p = "str ''/_next/static/xyz/_buildManifest.js''", OF example_url_valid]
    by simp
qed

text \<open>
  C10. For every text, every string the extractor returns is not empty, starts with a
  slash, has only characters of the path class, and so has no double quote and no white
  space.
\<close>

theorem parse_build_manifest_content_elements:
  "\<forall>w \<in> parse_build_manifest_content content.
     w \<noteq> [] \<and> hd w = slash \<and> list_all path_class w
     \<and> dquote \<notin> set w \<and> \<not> list_ex whitespace w"
proof
  fix w assume "w \<in> parse_build_manifest_content content"
  then have "route_literal w"
    using findall_scan_sound [of w 0 content]
    by (simp add: parse_build_manifest_content_def re_findall_def)
  then have c: "w \<noteq> [] \<and> hd w = slash \<and> list_all path_class w"
    using route_literal_chars by blast
  then have "\<forall>c \<in> set w. \<not> whitespace c \<and> c \<noteq> dquote"
    using path_class_not_space by (auto simp: list_all_iff)
  then show "w \<noteq> [] \<and> hd w = slash \<and> list_all path_class w
     \<and> dquote \<notin> set w \<and> \<not> list_ex whitespace w"
    using c by (auto simp: list_ex_iff)
qed

theorem parse_build_manifest_content_elements_witness:
  "str ''/b/[id]'' \<in> parse_build_manifest_content example_manifest
   \<and> str ''/b/[id]'' \<noteq> [] \<and> hd (str ''/b/[id]'') = slash \<and> list_all path_class (str ''/b/[id]'')
   \<and> dquote \<notin> set (str ''/b/[id]'') \<and> \<not> list_ex whitespace (str ''/b/[id]'')"
proof -
  have m: "str ''/b/[id]'' \<in> parse_build_manifest_content example_manifest"
    by (simp add: example_manifest_routes)
  show ?thesis
    using m parse_build_manifest_content_elements [of example_manifest] by blast
qed

end
